theory Spec2Isabelle
  imports Main "HOL-Library.AList"
begin

section \<open>Data model\<close>

text \<open>
  The program is \<^verbatim>\<open>index.js\<close>: \<^verbatim>\<open>install(opts)\<close> returns a promise and drives three
  \<^verbatim>\<open>async.eachLimit\<close> passes (fetch into the cache, copy into \<^verbatim>\<open>node_modules\<close>, remove
  scratch directories) through nested callbacks; \<^verbatim>\<open>copyDir\<close> copies a directory with rsync.

  Paths and error values are strings. A file system is the set of paths that exist.

  The model covers every branch the source writes: its \<^verbatim>\<open>reject\<close> and \<^verbatim>\<open>fulfill\<close>
  calls, every \<^verbatim>\<open>if (err)\<close>, every callback.  Left out are the logger and the progress
  counters, which influence nothing, \<^verbatim>\<open>resolvePath\<close> (the directories are taken as
  resolved), and exceptions thrown inside library calls that the source does not handle
  (a \<^verbatim>\<open>package.json\<close> that does not parse, a synchronous file operation that fails, an
  \<^verbatim>\<open>npm view\<close> answer without any record).
\<close>

type_synonym path = string
type_synonym err = string
type_synonym fs = "path set"

text \<open>\<^verbatim>\<open>{ name: dep, ver: opts.dependencies[dep] }\<close>\<close>

datatype dep = Dep (name: string) (ver: string)

text \<open>
  The part of an \<^verbatim>\<open>npm view\<close> record that the program reads: \<^verbatim>\<open>info.version\<close> (the
  latest version) and \<^verbatim>\<open>info.versions\<close> (all published versions).
\<close>

datatype info = Info (version: string) (versions: "string list")

text \<open>\<^verbatim>\<open>results.modules[dep.name] = { version: ver, path: dest, info: info }\<close>\<close>

datatype module = Module (mod_version: string) (mod_path: path) (mod_info: info)

text \<open>\<^verbatim>\<open>results = { node, arch, modulesAPI, modules: {} }\<close>\<close>

datatype results = Results (res_node: string) (res_arch: string) (res_modulesAPI: string)
  (res_modules: "(string \<times> module) list")

datatype promise = Pending | Fulfilled results | Rejected err

text \<open>
  The options object. \<open>dir\<close> and \<open>cacheDir\<close> are the values after \<^verbatim>\<open>resolvePath\<close>;
  \<open>dependencies\<close> is \<open>None\<close> when \<^verbatim>\<open>opts.dependencies\<close> is absent, and otherwise lists the
  object's keys with their values in key order.
\<close>

record opts =
  dir :: path
  cacheDir :: path
  dependencies :: "(string \<times> string) list option"
  production :: bool
  keep :: bool
  maxTasks :: nat

text \<open>The three dependency groups of a parsed \<^verbatim>\<open>package.json\<close>.\<close>

record pkgjson =
  pkg_dependencies :: "(string \<times> string) list option"
  devDependencies :: "(string \<times> string) list option"
  peerDependencies :: "(string \<times> string) list option"

text \<open>
  What the program reads from its surroundings: the process (\<^verbatim>\<open>process.version\<close>,
  \<^verbatim>\<open>process.arch\<close>, the module ABI string), the clock (\<^verbatim>\<open>new Date().getTime()\<close>), the
  parsed \<^verbatim>\<open>package.json\<close>, the names \<^verbatim>\<open>tmp.dirSync\<close> hands out (by how many were handed
  out before), and the two functions of the \<^verbatim>\<open>semver\<close> library it calls.  The library
  is a dependency, not part of this program, so \<open>valid\<close> (is \<^verbatim>\<open>semver.valid(v)\<close> non-null)
  and \<open>maxSatisfying\<close> (\<open>None\<close> for \<^verbatim>\<open>null\<close>) are parameters.
\<close>

record env =
  node :: string
  arch :: string
  modulesAPI :: string
  getTime :: nat
  pkgJson :: pkgjson
  tmpdir :: "nat \<Rightarrow> path"
  valid :: "string \<Rightarrow> bool"
  maxSatisfying :: "string list \<Rightarrow> string \<Rightarrow> string option"

section \<open>Paths and the file system\<close>

text \<open>\<^verbatim>\<open>path.join\<close> on segments that need no normalisation.\<close>

fun path_join :: "path list \<Rightarrow> path" where
  "path_join [] = ''.''"
| "path_join [p] = p"
| "path_join (p # q # ps) = p @ ''/'' @ path_join (q # ps)"

text \<open>The decimal digits of a number, for the time stamp in the backup name.\<close>

definition digit_char :: "nat \<Rightarrow> char" where
  "digit_char n = ''0123456789'' ! (n mod 10)"

function show_nat :: "nat \<Rightarrow> string" where
  "show_nat n = (if n < 10 then [digit_char n] else show_nat (n div 10) @ [digit_char n])"
  by pat_completeness auto
termination
  by (relation "measure (\<lambda>n. n)") auto

declare show_nat.simps [simp del]

text \<open>\<open>within d p\<close>: \<open>p\<close> is the directory \<open>d\<close> or lies below it.\<close>

definition within :: "path \<Rightarrow> path \<Rightarrow> bool" where
  "within d p \<longleftrightarrow> p = d \<or> take (Suc (length d)) p = d @ ''/''"

definition relocate :: "path \<Rightarrow> path \<Rightarrow> path \<Rightarrow> path" where
  "relocate src dst p = (if within src p then dst @ drop (length src) p else p)"

text \<open>
  The effect of the file operations when they succeed: a rename moves the directory with
  everything below it, a recursive remove deletes it with everything below it, mkdirs makes
  the path exist, and \<^verbatim>\<open>rsync -aq src/ dest/.\<close> copies what lies below \<open>src\<close> to below
  \<open>dest\<close>, keeping \<open>src\<close> and whatever \<open>dest\<close> already holds.
\<close>

definition below :: "path \<Rightarrow> fs \<Rightarrow> fs" where
  "below d files = {p \<in> files. within d p}"

definition fs_rename :: "path \<Rightarrow> path \<Rightarrow> fs \<Rightarrow> fs" where
  "fs_rename src dst files = relocate src dst ` files"

definition fs_remove :: "path \<Rightarrow> fs \<Rightarrow> fs" where
  "fs_remove d files = files - below d files"

definition fs_mkdirs :: "path \<Rightarrow> fs \<Rightarrow> fs" where
  "fs_mkdirs d files = insert d files"

definition fs_rsync :: "path \<Rightarrow> path \<Rightarrow> fs \<Rightarrow> fs" where
  "fs_rsync src dst files = files \<union> relocate src dst ` below src files"

section \<open>copyDir\<close>

text \<open>
  \<^verbatim>\<open>copyDir(src, dest, cb)\<close> either starts rsync (whose completion calls \<^verbatim>\<open>cb(err, cmd)\<close>
  later), or calls \<^verbatim>\<open>cb\<close> at once with an error string, or returns without calling
  \<^verbatim>\<open>cb\<close> and without starting anything that would.
\<close>

datatype copy_outcome = Rsync path path | Cb err | NoCb

definition copyDir :: "fs \<Rightarrow> path \<Rightarrow> path \<Rightarrow> copy_outcome" where
  "copyDir files src dest =
     (if src \<in> files then Rsync (src @ ''/'') (dest @ ''/.'')
      else if dest \<notin> files then Cb (''Source file not found: '' @ [CHR 0x22] @ src @ [CHR 0x22])
      else NoCb)"

section \<open>State of a run\<close>

text \<open>
  Every call the program makes to a collaborator, in the order it makes them.
\<close>

datatype call =
    MkdirsSync path
  | RenameSync path path
  | NpmLoad
  | NpmView string
  | TmpDirSync path
  | NpmInstall path string
  | Mkdirs path
  | Rename path path
  | RsyncExec path path
  | Remove path

text \<open>
  A callback the program has handed to a collaborator and that has not fired yet, with the
  variables it closes over.  \<open>Stuck\<close> is a unit of work that \<^verbatim>\<open>async\<close> counts as running
  while nothing is left that could ever call its callback.
\<close>

datatype cont =
    OnView dep
  | OnInstall path path
  | OnMkdirs path path
  | OnRename path path
  | OnCopy path path
  | OnPublish path
  | OnRemove path
  | Stuck

text \<open>What a unit of work did when it ran: called back, left a callback pending, or neither.\<close>

datatype outcome = Done "err option" | Wait cont | Never

datatype work = FetchDep dep | PublishSrc path | CleanDir path

datatype stage = Idle | Loading | Fetching | Publishing | Cleaning

text \<open>
  The variables of \<^verbatim>\<open>install\<close>'s closure (\<open>deps\<close>, \<open>sourceModules\<close>, \<open>cleanUpDirs\<close>,
  \<open>modules\<close> for \<^verbatim>\<open>results.modules\<close>), the promise, the file system, the calls made so
  far, and the bookkeeping of the \<^verbatim>\<open>async.eachLimit\<close> pass in progress: the items not yet
  started, the units in flight under a number each, whether a unit has failed, and every
  error a unit has passed to its callback, oldest first.  The progress counters that the
  source only prints are left out.
\<close>

record state =
  files :: fs
  calls :: "call list"
  deps :: "dep list"
  sourceModules :: "path list"
  cleanUpDirs :: "path list"
  modules :: "(string \<times> module) list"
  promise :: promise
  stage :: stage
  queue :: "work list"
  inflight :: "(nat \<times> cont) list"
  started :: nat
  errored :: bool
  failures :: "err list"

text \<open>A promise settles once: \<^verbatim>\<open>fulfill\<close> and \<^verbatim>\<open>reject\<close> on a settled promise do nothing.\<close>

definition reject :: "err \<Rightarrow> state \<Rightarrow> state" where
  "reject x s = (if promise s = Pending then s\<lparr>promise := Rejected x\<rparr> else s)"

definition fulfill :: "env \<Rightarrow> state \<Rightarrow> state" where
  "fulfill e s =
     (if promise s = Pending
      then s\<lparr>promise := Fulfilled (Results (node e) (arch e) (modulesAPI e) (modules s))\<rparr>
      else s)"

definition called :: "call \<Rightarrow> state \<Rightarrow> state" where
  "called c s = s\<lparr>calls := calls s @ [c]\<rparr>"

section \<open>The fetch pass: one dependency\<close>

definition destNodeModulesDir :: "opts \<Rightarrow> path" where
  "destNodeModulesDir opts = path_join [dir opts, ''node_modules'']"

definition cacheModuleDir :: "env \<Rightarrow> opts \<Rightarrow> string \<Rightarrow> string \<Rightarrow> path" where
  "cacheModuleDir e opts n v = path_join [cacheDir opts, n, v, arch e, modulesAPI e]"

text \<open>The iterator of the first \<^verbatim>\<open>eachLimit\<close>, up to its first asynchronous call.\<close>

definition fetch_iter :: "env \<Rightarrow> opts \<Rightarrow> dep \<Rightarrow> state \<Rightarrow> state \<times> outcome" where
  "fetch_iter e opts d s =
     (if valid e (ver d) \<and> cacheModuleDir e opts (name d) (ver d) \<in> files s
      then (s\<lparr>sourceModules := sourceModules s @ [cacheModuleDir e opts (name d) (ver d)]\<rparr>,
            Done None)
      else (called (NpmView (name d)) s, Wait (OnView d)))"

text \<open>
  \<^verbatim>\<open>ver = dep.ver === '*' || dep.ver === 'latest' ? info.version
       : semver.maxSatisfying(info.versions, dep.ver + ' <=' + info.version);
  if (ver === null) ver = info.version;\<close>
\<close>

definition select_version :: "env \<Rightarrow> dep \<Rightarrow> info \<Rightarrow> string" where
  "select_version e d i =
     (if ver d = ''*'' \<or> ver d = ''latest'' then version i
      else case maxSatisfying e (versions i) (ver d @ '' <='' @ version i) of
             None \<Rightarrow> version i
           | Some v \<Rightarrow> v)"

text \<open>The callback of \<^verbatim>\<open>npm.commands.view\<close>.\<close>

definition on_view :: "env \<Rightarrow> opts \<Rightarrow> dep \<Rightarrow> err + info \<Rightarrow> state \<Rightarrow> state \<times> outcome" where
  "on_view e opts d r s =
     (case r of
        Inl x \<Rightarrow> (s, Done (Some x))
      | Inr i \<Rightarrow>
          let v = select_version e d i;
              cmd = cacheModuleDir e opts (name d) v;
              dest = path_join [destNodeModulesDir opts, name d];
              s1 = s\<lparr>modules := AList.update (name d) (Module v dest i) (modules s)\<rparr>
          in if cmd \<in> files s1
             then (s1\<lparr>sourceModules := sourceModules s1 @ [cmd]\<rparr>, Done None)
             else
               let tmpDir = tmpdir e (length (cleanUpDirs s1));
                   s2 = called (TmpDirSync tmpDir)
                          (s1\<lparr>files := fs_mkdirs tmpDir (files s1)\<rparr>);
                   s3 = s2\<lparr>cleanUpDirs := cleanUpDirs s2 @ [tmpDir]\<rparr>
               in (called (NpmInstall tmpDir (name d @ ''@'' @ v)) s3,
                   Wait (OnInstall cmd tmpDir)))"

text \<open>The callback of \<^verbatim>\<open>npm.commands.install\<close>.\<close>

definition on_install :: "path \<Rightarrow> path \<Rightarrow> err option \<Rightarrow> state \<Rightarrow> state \<times> outcome" where
  "on_install cmd tmpDir r s =
     (case r of
        Some x \<Rightarrow> (s, Done (Some x))
      | None \<Rightarrow>
          if cmd \<in> files s then (s, Done None)
          else (called (Mkdirs cmd) s, Wait (OnMkdirs cmd tmpDir)))"

text \<open>The callback of \<^verbatim>\<open>fs.mkdirs(cacheModuleDir, ...)\<close>.\<close>

definition on_mkdirs :: "path \<Rightarrow> path \<Rightarrow> err option \<Rightarrow> state \<Rightarrow> state \<times> outcome" where
  "on_mkdirs cmd tmpDir r s =
     (case r of
        Some x \<Rightarrow> (s, Done (Some x))
      | None \<Rightarrow>
          let src = path_join [tmpDir, ''node_modules'']
          in (called (Rename src cmd) s, Wait (OnRename src cmd)))"

text \<open>The callback of \<^verbatim>\<open>fs.rename(src, cacheModuleDir, ...)\<close>.\<close>

definition on_rename :: "path \<Rightarrow> path \<Rightarrow> err option \<Rightarrow> state \<Rightarrow> state \<times> outcome" where
  "on_rename src cmd r s =
     (case r of
        Some x \<Rightarrow>
          (case copyDir (files s) src cmd of
             Rsync a b \<Rightarrow> (called (RsyncExec a b) s, Wait (OnCopy src cmd))
           | Cb y \<Rightarrow> (s, Done (Some y))
           | NoCb \<Rightarrow> (s, Never))
      | None \<Rightarrow> (s\<lparr>sourceModules := sourceModules s @ [cmd]\<rparr>, Done None))"

text \<open>The callback given to \<^verbatim>\<open>copyDir(src, cacheModuleDir, ...)\<close>.\<close>

definition on_copy :: "path \<Rightarrow> err option \<Rightarrow> state \<Rightarrow> state \<times> outcome" where
  "on_copy cmd r s =
     (case r of
        None \<Rightarrow> (s\<lparr>sourceModules := sourceModules s @ [cmd]\<rparr>, Done None)
      | Some x \<Rightarrow> (s, Done (Some x)))"

section \<open>The publish and cleanup passes: one item\<close>

definition publish_iter :: "opts \<Rightarrow> path \<Rightarrow> state \<Rightarrow> state \<times> outcome" where
  "publish_iter opts src s =
     (case copyDir (files s) src (destNodeModulesDir opts) of
        Rsync a b \<Rightarrow> (called (RsyncExec a b) s, Wait (OnPublish src))
      | Cb y \<Rightarrow> (s, Done (Some y))
      | NoCb \<Rightarrow> (s, Never))"

definition cleanup_iter :: "path \<Rightarrow> state \<Rightarrow> state \<times> outcome" where
  "cleanup_iter d s =
     (if d \<in> files s then (called (Remove d) s, Wait (OnRemove d)) else (s, Done None))"

definition iterator :: "env \<Rightarrow> opts \<Rightarrow> work \<Rightarrow> state \<Rightarrow> state \<times> outcome" where
  "iterator e opts w s =
     (case w of
        FetchDep d \<Rightarrow> fetch_iter e opts d s
      | PublishSrc p \<Rightarrow> publish_iter opts p s
      | CleanDir p \<Rightarrow> cleanup_iter p s)"

section \<open>async.eachLimit\<close>

text \<open>
  \<^verbatim>\<open>async.eachLimit(arr, limit, iterator, callback)\<close> is a library function; this is the
  loop of async 1.x.  Items are started in array order while fewer than
  \<open>limit\<close> units are running and no unit has failed.  A unit that calls back with an error
  makes the pass call \<open>callback(err)\<close>, once, and start nothing more; when the array is
  used up and nothing is running the pass calls \<open>callback(null)\<close>.  An iterator may call
  back before it returns, which the loop handles like a later call.

  \<^verbatim>\<open>opts.maxTasks || 5\<close>: zero is falsy.
\<close>

definition limit :: "opts \<Rightarrow> nat" where
  "limit opts = (if maxTasks opts = 0 then 5 else maxTasks opts)"

definition launch :: "cont \<Rightarrow> state \<Rightarrow> state" where
  "launch c s = s\<lparr>inflight := inflight s @ [(started s, c)], started := Suc (started s)\<rparr>"

fun replenish ::
  "(work \<Rightarrow> state \<Rightarrow> state \<times> outcome) \<Rightarrow> (err option \<Rightarrow> state \<Rightarrow> state) \<Rightarrow> nat \<Rightarrow>
   work list \<Rightarrow> state \<Rightarrow> state" where
  "replenish iter cb lim [] s =
     (if errored s \<or> inflight s \<noteq> [] then s\<lparr>queue := []\<rparr> else cb None (s\<lparr>queue := []\<rparr>))"
| "replenish iter cb lim (w # ws) s =
     (if errored s \<or> lim \<le> length (inflight s) then s\<lparr>queue := w # ws\<rparr>
      else case iter w s of
             (s', Done None) \<Rightarrow> replenish iter cb lim ws s'
           | (s', Done (Some x)) \<Rightarrow>
               cb (Some x) (s'\<lparr>queue := ws, errored := True, failures := failures s' @ [x]\<rparr>)
           | (s', Wait c) \<Rightarrow> replenish iter cb lim ws (launch c s')
           | (s', Never) \<Rightarrow> replenish iter cb lim ws (launch Stuck s'))"

definition eachLimit ::
  "stage \<Rightarrow> (work \<Rightarrow> state \<Rightarrow> state \<times> outcome) \<Rightarrow> (err option \<Rightarrow> state \<Rightarrow> state) \<Rightarrow> nat \<Rightarrow>
   work list \<Rightarrow> state \<Rightarrow> state" where
  "eachLimit st iter cb lim ws s = replenish iter cb lim ws (s\<lparr>stage := st\<rparr>)"

section \<open>The final callbacks of the three passes\<close>

text \<open>Innermost first: cleanup, then publish, then fetch.\<close>

definition cleanup_done :: "env \<Rightarrow> err option \<Rightarrow> state \<Rightarrow> state" where
  "cleanup_done e r s = (case r of Some x \<Rightarrow> reject x s | None \<Rightarrow> fulfill e s)"

definition publish_done :: "env \<Rightarrow> opts \<Rightarrow> err option \<Rightarrow> state \<Rightarrow> state" where
  "publish_done e opts r s =
     (case r of
        Some x \<Rightarrow> reject x s
      | None \<Rightarrow>
          if cleanUpDirs s \<noteq> []
          then eachLimit Cleaning (iterator e opts) (cleanup_done e) (limit opts)
                 (map CleanDir (cleanUpDirs s)) s
          else fulfill e s)"

definition fetch_done :: "env \<Rightarrow> opts \<Rightarrow> err option \<Rightarrow> state \<Rightarrow> state" where
  "fetch_done e opts r s =
     (case r of
        Some x \<Rightarrow> reject x s
      | None \<Rightarrow>
          eachLimit Publishing (iterator e opts) (publish_done e opts) (limit opts)
            (map PublishSrc (sourceModules s)) s)"

definition final_cb :: "env \<Rightarrow> opts \<Rightarrow> stage \<Rightarrow> err option \<Rightarrow> state \<Rightarrow> state" where
  "final_cb e opts st =
     (case st of
        Fetching \<Rightarrow> fetch_done e opts
      | Publishing \<Rightarrow> publish_done e opts
      | Cleaning \<Rightarrow> cleanup_done e
      | _ \<Rightarrow> (\<lambda>r s. s))"

section \<open>Callbacks firing\<close>

text \<open>
  What a collaborator answers when it calls back: success, an error, or (for
  \<^verbatim>\<open>npm view\<close>) the record found.  A successful file operation has had its effect on the
  file system by the time its callback runs; a successful \<^verbatim>\<open>npm install\<close> into \<open>tmpDir\<close>
  has made \<open>tmpDir/node_modules\<close>.
\<close>

datatype reply = Ok | Fail err | Found info

fun resume :: "env \<Rightarrow> opts \<Rightarrow> cont \<Rightarrow> reply \<Rightarrow> state \<Rightarrow> (state \<times> outcome) option" where
  "resume e opts (OnView d) (Found i) s = Some (on_view e opts d (Inr i) s)"
| "resume e opts (OnView d) (Fail x) s = Some (on_view e opts d (Inl x) s)"
| "resume e opts (OnInstall cmd tmpDir) Ok s =
     Some (on_install cmd tmpDir None
             (s\<lparr>files := fs_mkdirs (path_join [tmpDir, ''node_modules'']) (files s)\<rparr>))"
| "resume e opts (OnInstall cmd tmpDir) (Fail x) s = Some (on_install cmd tmpDir (Some x) s)"
| "resume e opts (OnMkdirs cmd tmpDir) Ok s =
     Some (on_mkdirs cmd tmpDir None (s\<lparr>files := fs_mkdirs cmd (files s)\<rparr>))"
| "resume e opts (OnMkdirs cmd tmpDir) (Fail x) s = Some (on_mkdirs cmd tmpDir (Some x) s)"
| "resume e opts (OnRename src cmd) Ok s =
     Some (on_rename src cmd None (s\<lparr>files := fs_rename src cmd (files s)\<rparr>))"
| "resume e opts (OnRename src cmd) (Fail x) s = Some (on_rename src cmd (Some x) s)"
| "resume e opts (OnCopy src cmd) Ok s =
     Some (on_copy cmd None (s\<lparr>files := fs_rsync src cmd (files s)\<rparr>))"
| "resume e opts (OnCopy src cmd) (Fail x) s = Some (on_copy cmd (Some x) s)"
| "resume e opts (OnPublish src) Ok s =
     Some (s\<lparr>files := fs_rsync src (destNodeModulesDir opts) (files s)\<rparr>, Done None)"
| "resume e opts (OnPublish src) (Fail x) s = Some (s, Done (Some x))"
| "resume e opts (OnRemove d) Ok s = Some (s\<lparr>files := fs_remove d (files s)\<rparr>, Done None)"
| "resume e opts (OnRemove d) (Fail x) s = Some (s, Done (Some x))"
| "resume e opts _ _ s = None"

text \<open>
  The wrapper \<^verbatim>\<open>eachLimit\<close> puts around a unit's callback:
  \<^verbatim>\<open>running -= 1; if (err) { callback(err); errored = true; } else { replenish(); }\<close>
\<close>

definition settle :: "env \<Rightarrow> opts \<Rightarrow> nat \<Rightarrow> state \<times> outcome \<Rightarrow> state" where
  "settle e opts k r =
     (case r of
        (s, Wait c) \<Rightarrow> s\<lparr>inflight := AList.update k c (inflight s)\<rparr>
      | (s, Never) \<Rightarrow> s\<lparr>inflight := AList.update k Stuck (inflight s)\<rparr>
      | (s, Done None) \<Rightarrow>
          let s' = s\<lparr>inflight := AList.delete k (inflight s)\<rparr>
          in replenish (iterator e opts) (final_cb e opts (stage s')) (limit opts) (queue s') s'
      | (s, Done (Some x)) \<Rightarrow>
          let s' = s\<lparr>inflight := AList.delete k (inflight s), failures := failures s @ [x]\<rparr>
          in if errored s' then s' else final_cb e opts (stage s') (Some x) (s'\<lparr>errored := True\<rparr>))"

text \<open>The callback of \<^verbatim>\<open>npm.load\<close>: \<^verbatim>\<open>if (err) { return; }\<close>, else the fetch pass.\<close>

definition on_load :: "env \<Rightarrow> opts \<Rightarrow> err option \<Rightarrow> state \<Rightarrow> state" where
  "on_load e opts r s =
     (case r of
        Some x \<Rightarrow> s\<lparr>stage := Idle\<rparr>
      | None \<Rightarrow>
          eachLimit Fetching (iterator e opts) (fetch_done e opts) (limit opts)
            (map FetchDep (deps s)) s)"

text \<open>
  What can happen next in a run: \<^verbatim>\<open>npm.load\<close> calls back, the pending callback of unit
  \<open>k\<close> fires, or something outside the program (another process sharing the cache, say)
  creates or deletes a path.  A callback that is not pending does not fire.
\<close>

datatype event = LoadCb "err option" | Callback nat reply | Appear path | Vanish path

definition step :: "env \<Rightarrow> opts \<Rightarrow> event \<Rightarrow> state \<Rightarrow> state" where
  "step e opts ev s =
     (case ev of
        LoadCb r \<Rightarrow> if stage s = Loading then on_load e opts r s else s
      | Callback k r \<Rightarrow>
          (case map_of (inflight s) k of
             None \<Rightarrow> s
           | Some c \<Rightarrow>
               (case resume e opts c r s of
                  None \<Rightarrow> s
                | Some res \<Rightarrow> settle e opts k res))
      | Appear p \<Rightarrow> s\<lparr>files := insert p (files s)\<rparr>
      | Vanish p \<Rightarrow> s\<lparr>files := files s - {p}\<rparr>)"

fun run :: "env \<Rightarrow> opts \<Rightarrow> event list \<Rightarrow> state \<Rightarrow> state" where
  "run e opts [] s = s"
| "run e opts (ev # evs) s = run e opts evs (step e opts ev s)"

section \<open>install, up to npm.load\<close>

definition declared :: "(string \<times> string) list \<Rightarrow> dep list" where
  "declared m = map (\<lambda>(n, v). Dep n v) m"

text \<open>Lines 69 to 102: the dependency list, or the rejection for a missing manifest.\<close>

definition collect_deps :: "env \<Rightarrow> opts \<Rightarrow> fs \<Rightarrow> err + dep list" where
  "collect_deps e opts fs0 =
     (case dependencies opts of
        Some m \<Rightarrow> Inr (declared m)
      | None \<Rightarrow>
          if path_join [dir opts, ''package.json''] \<notin> fs0 then Inl ''No package.json found''
          else
            let pj = pkgJson e;
                ds = (case pkg_dependencies pj of Some m \<Rightarrow> declared m | None \<Rightarrow> [])
            in if production opts then Inr ds
               else Inr (ds @ (case devDependencies pj of Some m \<Rightarrow> declared m | None \<Rightarrow> [])
                            @ (case peerDependencies pj of Some m \<Rightarrow> declared m | None \<Rightarrow> [])))"

definition mkdirsSync :: "path \<Rightarrow> state \<Rightarrow> state" where
  "mkdirsSync p s = called (MkdirsSync p) (s\<lparr>files := fs_mkdirs p (files s)\<rparr>)"

definition renameSync :: "path \<Rightarrow> path \<Rightarrow> state \<Rightarrow> state" where
  "renameSync p q s = called (RenameSync p q) (s\<lparr>files := fs_rename p q (files s)\<rparr>)"

definition start_state :: "fs \<Rightarrow> state" where
  "start_state fs0 =
     \<lparr>files = fs0, calls = [], deps = [], sourceModules = [], cleanUpDirs = [], modules = [],
      promise = Pending, stage = Idle, queue = [], inflight = [], started = 0,
      errored = False, failures = []\<rparr>"

definition backup_name :: "env \<Rightarrow> opts \<Rightarrow> path" where
  "backup_name e opts = destNodeModulesDir opts @ ''.'' @ show_nat (getTime e) @ ''.bak''"

text \<open>
  The body of the promise, run on the file system \<open>fs0\<close>, up to the call of
  \<^verbatim>\<open>npm.load\<close>; the rest of the run happens in callbacks.
\<close>

definition install :: "env \<Rightarrow> opts \<Rightarrow> fs \<Rightarrow> state" where
  "install e opts fs0 =
     (let s = start_state fs0
      in if dir opts \<notin> fs0 then reject (''Invalid directory: '' @ dir opts) s
         else case collect_deps e opts fs0 of
                Inl x \<Rightarrow> reject x s
              | Inr ds \<Rightarrow>
                  if ds = [] then fulfill e s
                  else
                    let s1 = (if cacheDir opts \<in> files s then s else mkdirsSync (cacheDir opts) s);
                        dst = destNodeModulesDir opts;
                        s2 = (if \<not> keep opts \<and> dst \<in> files s1
                              then renameSync dst (backup_name e opts) s1 else s1);
                        s3 = (if dst \<in> files s2 then s2 else mkdirsSync dst s2)
                    in called NpmLoad (s3\<lparr>deps := ds, stage := Loading\<rparr>))"

section \<open>An instance of semver for running examples\<close>

text \<open>
  The examples below need a concrete \<open>valid\<close> and \<open>maxSatisfying\<close>.  This instance covers
  the part of the library's range grammar that the examples use: a version is three
  decimal numbers separated by dots; a range is one or more comparator sets joined by
  \<^verbatim>\<open>||\<close>; a comparator set is a list of comparators separated by spaces; a comparator is
  one of \<^verbatim>\<open>< <= > >= =\<close> (or nothing, meaning \<^verbatim>\<open>=\<close>) followed by a version.  A version
  satisfies a range when it satisfies every comparator of at least one comparator set.
  A range outside this grammar is treated as invalid, which no version satisfies.
  No general theorem depends on this instance.
\<close>

fun split_on :: "char \<Rightarrow> string \<Rightarrow> string list" where
  "split_on c [] = [[]]"
| "split_on c (x # xs) =
     (if x = c then [] # split_on c xs
      else case split_on c xs of [] \<Rightarrow> [[x]] | t # ts \<Rightarrow> (x # t) # ts)"

fun split_bars :: "string \<Rightarrow> string list" where
  "split_bars [] = [[]]"
| "split_bars [x] = [[x]]"
| "split_bars (x # y # xs) =
     (if x = CHR ''|'' \<and> y = CHR ''|'' then [] # split_bars xs
      else case split_bars (y # xs) of [] \<Rightarrow> [[x]] | t # ts \<Rightarrow> (x # t) # ts)"

definition digit_val :: "char \<Rightarrow> nat option" where
  "digit_val c =
     map_of [(CHR ''0'', 0), (CHR ''1'', 1), (CHR ''2'', 2), (CHR ''3'', 3), (CHR ''4'', 4),
             (CHR ''5'', 5), (CHR ''6'', 6), (CHR ''7'', 7), (CHR ''8'', 8), (CHR ''9'', 9)] c"

fun number_acc :: "nat \<Rightarrow> string \<Rightarrow> nat option" where
  "number_acc a [] = Some a"
| "number_acc a (c # cs) =
     (case digit_val c of None \<Rightarrow> None | Some d \<Rightarrow> number_acc (10 * a + d) cs)"

definition number :: "string \<Rightarrow> nat option" where
  "number t = (if t = [] \<or> (hd t = CHR ''0'' \<and> tl t \<noteq> []) then None else number_acc 0 t)"

definition parse_version :: "string \<Rightarrow> (nat \<times> nat \<times> nat) option" where
  "parse_version v =
     (case map number (split_on CHR ''.'' v) of
        [Some a, Some b, Some c] \<Rightarrow> Some (a, b, c)
      | _ \<Rightarrow> None)"

fun version_less :: "nat \<times> nat \<times> nat \<Rightarrow> nat \<times> nat \<times> nat \<Rightarrow> bool" where
  "version_less (a, b, c) (a', b', c') \<longleftrightarrow>
     a < a' \<or> (a = a' \<and> (b < b' \<or> (b = b' \<and> c < c')))"

datatype comparator = Lt | Le | Gt | Ge | Eq

fun test :: "comparator \<Rightarrow> nat \<times> nat \<times> nat \<Rightarrow> nat \<times> nat \<times> nat \<Rightarrow> bool" where
  "test Lt w v \<longleftrightarrow> version_less v w"
| "test Le w v \<longleftrightarrow> \<not> version_less w v"
| "test Gt w v \<longleftrightarrow> version_less w v"
| "test Ge w v \<longleftrightarrow> \<not> version_less v w"
| "test Eq w v \<longleftrightarrow> v = w"

fun parse_comparator :: "string \<Rightarrow> (comparator \<times> (nat \<times> nat \<times> nat)) option" where
  "parse_comparator t =
     (let (c, rest) =
        (case t of
           CHR ''<'' # CHR ''='' # r \<Rightarrow> (Le, r)
         | CHR ''>'' # CHR ''='' # r \<Rightarrow> (Ge, r)
         | CHR ''<'' # r \<Rightarrow> (Lt, r)
         | CHR ''>'' # r \<Rightarrow> (Gt, r)
         | CHR ''='' # r \<Rightarrow> (Eq, r)
         | r \<Rightarrow> (Eq, r))
      in map_option (Pair c) (parse_version rest))"

definition satisfies_set :: "nat \<times> nat \<times> nat \<Rightarrow> string \<Rightarrow> bool option" where
  "satisfies_set v cs =
     (let ps = map parse_comparator (filter (\<lambda>t. t \<noteq> []) (split_on CHR '' '' cs))
      in if None \<in> set ps then None
         else Some (list_all (\<lambda>p. case p of Some (c, w) \<Rightarrow> test c w v | None \<Rightarrow> False) ps))"

definition satisfies :: "string \<Rightarrow> string \<Rightarrow> bool" where
  "satisfies v r =
     (case parse_version v of
        None \<Rightarrow> False
      | Some t \<Rightarrow>
          let rs = map (satisfies_set t) (split_bars r)
          in None \<notin> set rs \<and> Some True \<in> set rs)"

definition newer :: "string \<Rightarrow> string \<Rightarrow> string" where
  "newer a b =
     (case (parse_version a, parse_version b) of
        (Some x, Some y) \<Rightarrow> if version_less x y then b else a
      | _ \<Rightarrow> a)"

definition max_satisfying :: "string list \<Rightarrow> string \<Rightarrow> string option" where
  "max_satisfying vs r =
     (case filter (\<lambda>v. satisfies v r) vs of [] \<Rightarrow> None | v # ws \<Rightarrow> Some (foldl newer v ws))"

definition sample_env :: env where
  "sample_env =
     \<lparr>node = ''v4.2.1'', arch = ''x64'', modulesAPI = ''46'', getTime = 1446336000000,
      pkgJson = \<lparr>pkg_dependencies = None, devDependencies = None, peerDependencies = None\<rparr>,
      tmpdir = (\<lambda>n. ''/tmp/npm-fast-install-'' @ show_nat n),
      valid = (\<lambda>v. parse_version v \<noteq> None),
      maxSatisfying = max_satisfying\<rparr>"

definition sample_opts :: "(string \<times> string) list \<Rightarrow> opts" where
  "sample_opts ds =
     \<lparr>dir = ''/proj'', cacheDir = ''/cache'', dependencies = Some ds, production = False,
      keep = False, maxTasks = 0\<rparr>"

section \<open>States in which nothing can happen\<close>

text \<open>
  No callback is pending: \<^verbatim>\<open>npm.load\<close> is not outstanding and every unit still counted
  as running is one whose callback nothing will call.
\<close>

definition quiescent :: "state \<Rightarrow> bool" where
  "quiescent s \<longleftrightarrow> stage s \<noteq> Loading \<and> list_all (\<lambda>kc. snd kc = Stuck) (inflight s)"

text \<open>\<^verbatim>\<open>npm.load\<close> has been called and has not called back.\<close>

definition loading :: "state \<Rightarrow> bool" where
  "loading s \<longleftrightarrow> stage s = Loading \<and> inflight s = [] \<and> promise s = Pending"

section \<open>The invariant of a run\<close>

text \<open>
  \<open>active\<close>: one of the three passes is in progress or has ended.  \<open>ready\<close>: a pass may
  start units.  \<open>fail_fast\<close> relates the promise to the errors the units have reported:
  outside the passes nothing is in flight and nothing has failed; while no unit has
  failed the promise is pending unless nothing is in flight any more; once a unit has
  failed the promise is rejected with the first of the errors.
\<close>

definition active :: "stage \<Rightarrow> bool" where
  "active st \<longleftrightarrow> st = Fetching \<or> st = Publishing \<or> st = Cleaning"

definition fail_fast :: "state \<Rightarrow> bool" where
  "fail_fast s \<longleftrightarrow>
     (\<not> active (stage s) \<longrightarrow> inflight s = [] \<and> failures s = [])
     \<and> (failures s = [] \<longrightarrow>
          \<not> errored s \<and> (promise s \<noteq> Pending \<longrightarrow> inflight s = [] \<and> stage s \<noteq> Loading))
     \<and> (failures s \<noteq> [] \<longrightarrow> errored s \<and> promise s = Rejected (hd (failures s)))"

definition ready :: "state \<Rightarrow> bool" where
  "ready s \<longleftrightarrow> promise s = Pending \<and> failures s = [] \<and> \<not> errored s \<and> active (stage s)"

section \<open>Example runs\<close>

text \<open>
  \<open>warm_run\<close>: one dependency with an exact version that is in the cache.
  \<open>racing_run\<close>: one dependency; while \<^verbatim>\<open>npm install\<close> is running, something else
  creates its cache directory.
  \<open>failing_run\<close>: two dependencies in flight; \<^verbatim>\<open>npm view\<close> fails for the second, then
  succeeds for the first.
  \<open>stuck_run\<close>: the cache entry of the first dependency disappears after the fetch pass
  has recorded it and before the publish pass starts.
\<close>

definition warm_run :: state where
  "warm_run =
     run sample_env (sample_opts [(''a'', ''1.0.0'')]) [LoadCb None, Callback 0 Ok]
       (install sample_env (sample_opts [(''a'', ''1.0.0'')])
          {''/proj'', ''/cache'', ''/cache/a/1.0.0/x64/46'', ''/cache/a/1.0.0/x64/46/a''})"


definition failing_run :: state where
  "failing_run =
     run sample_env (sample_opts [(''a'', ''>=1.0.0''), (''b'', ''>=2.0.0'')])
       [LoadCb None, Callback 1 (Fail ''E404''),
        Callback 0 (Found (Info ''1.2.0'' [''1.0.0'', ''1.2.0'']))]
       (install sample_env (sample_opts [(''a'', ''>=1.0.0''), (''b'', ''>=2.0.0'')])
          {''/proj'', ''/cache''})"

definition stuck_run :: state where
  "stuck_run =
     run sample_env (sample_opts [(''a'', ''1.0.0''), (''b'', ''>=2.0.0'')])
       [LoadCb None, Vanish ''/cache/a/1.0.0/x64/46'',
        Callback 0 (Found (Info ''2.0.0'' [''2.0.0''])), Callback 2 Ok]
       (install sample_env (sample_opts [(''a'', ''1.0.0''), (''b'', ''>=2.0.0'')])
          {''/proj'', ''/cache'', ''/cache/a/1.0.0/x64/46'', ''/cache/b/2.0.0/x64/46''})"

section \<open>Rules for running the model on concrete inputs\<close>

lemma below_empty: "below d {} = {}"
  by (simp add: below_def)

lemma below_insert:
  "below d (insert p F) = (if within d p then insert p (below d F) else below d F)"
  by (auto simp: below_def)

lemmas semver_defs =
  max_satisfying_def satisfies_def satisfies_set_def parse_version_def number_def
  digit_val_def newer_def

lemmas fs_defs =
  fs_rename_def fs_remove_def fs_mkdirs_def fs_rsync_def relocate_def within_def
  below_empty below_insert insert_Diff_if

lemmas unit_defs =
  iterator_def fetch_iter_def on_view_def on_install_def on_mkdirs_def on_rename_def
  on_copy_def publish_iter_def cleanup_iter_def copyDir_def select_version_def called_def
  destNodeModulesDir_def cacheModuleDir_def

lemmas pass_defs =
  step_def on_load_def eachLimit_def settle_def final_cb_def fetch_done_def
  publish_done_def cleanup_done_def launch_def limit_def reject_def fulfill_def

lemmas install_defs =
  install_def start_state_def collect_deps_def declared_def mkdirsSync_def renameSync_def
  backup_name_def show_nat.simps digit_char_def

lemmas sample_defs = sample_env_def sample_opts_def

lemmas run_defs = unit_defs pass_defs install_defs sample_defs semver_defs fs_defs Let_def

section \<open>copyDir\<close>

lemma copyDir_cases:
  "copyDir fs0 src dest =
     (if src \<in> fs0 then Rsync (src @ ''/'') (dest @ ''/.'')
      else if dest \<in> fs0 then NoCb
      else Cb (''Source file not found: '' @ [CHR 0x22] @ src @ [CHR 0x22]))"
  by (simp add: copyDir_def)

text \<open>
  Claim C1.  The claim: when the source does not exist and the destination does,
  \<^verbatim>\<open>copyDir\<close> completes with a success callback, and when neither exists it completes
  with the error "Source file not found".  The second half holds (\<open>copyDir_cases\<close>).  The
  first does not: with the cache entry \<^verbatim>\<open>/cache/left-pad/1.0.0/x64/46\<close> missing and
  \<^verbatim>\<open>/proj/node_modules\<close> present, \<^verbatim>\<open>copyDir\<close> takes neither branch of its
  \<^verbatim>\<open>if ... else if\<close> and returns without calling its callback at all.
\<close>

theorem copyDir_absent_source_never_calls_back:
  "copyDir {''/proj/node_modules''} ''/cache/left-pad/1.0.0/x64/46'' ''/proj/node_modules''
     = NoCb"
  by (simp add: copyDir_def)

section \<open>Version selection\<close>

lemma select_version_wildcard:
  "ver d = ''*'' \<or> ver d = ''latest'' \<Longrightarrow> select_version e d i = version i"
  by (auto simp: select_version_def)

lemma select_version_range:
  "ver d \<noteq> ''*'' \<Longrightarrow> ver d \<noteq> ''latest'' \<Longrightarrow>
   select_version e d i =
     (case maxSatisfying e (versions i) (ver d @ '' <='' @ version i) of
        None \<Rightarrow> version i
      | Some v \<Rightarrow> v)"
  by (simp add: select_version_def)

text \<open>
  What the appended bound achieves when it works.  Let \<open>sat\<close> and \<open>le\<close> be the library's
  "satisfies" and "at most", let \<open>maxSatisfying\<close> return the greatest version of the list
  that satisfies the range, or nothing when there is none, and let the range
  \<^verbatim>\<open>dep.ver + ' <=' + info.version\<close> mean "\<^verbatim>\<open>dep.ver\<close> and at most the latest" on the
  published versions.  Then the resolved version is the greatest published version that
  satisfies the declared range and is at most the latest, and the latest when there is
  none.
\<close>

lemma select_version_greatest:
  fixes sat :: "string \<Rightarrow> string \<Rightarrow> bool" and le :: "string \<Rightarrow> string \<Rightarrow> bool"
  assumes range: "ver d \<noteq> ''*''" "ver d \<noteq> ''latest''"
    and none: "\<And>vs r. maxSatisfying e vs r = None \<Longrightarrow> \<forall>v \<in> set vs. \<not> sat v r"
    and some: "\<And>vs r m. maxSatisfying e vs r = Some m \<Longrightarrow>
                 m \<in> set vs \<and> sat m r \<and> (\<forall>v \<in> set vs. sat v r \<longrightarrow> le v m)"
    and both: "\<And>v. v \<in> set (versions i) \<Longrightarrow>
                 sat v (ver d @ '' <='' @ version i) \<longleftrightarrow> sat v (ver d) \<and> le v (version i)"
  shows "if \<exists>v \<in> set (versions i). sat v (ver d) \<and> le v (version i)
         then select_version e d i \<in> set (versions i)
              \<and> sat (select_version e d i) (ver d) \<and> le (select_version e d i) (version i)
              \<and> (\<forall>v \<in> set (versions i). sat v (ver d) \<and> le v (version i)
                    \<longrightarrow> le v (select_version e d i))
         else select_version e d i = version i"
proof (cases "maxSatisfying e (versions i) (ver d @ '' <='' @ version i)")
  case None
  from none [OF None] both have "\<not> (\<exists>v \<in> set (versions i). sat v (ver d) \<and> le v (version i))"
    by blast
  with None range show ?thesis
    by (auto simp: select_version_def)
next
  case (Some m)
  from some [OF Some] both
  have "m \<in> set (versions i)" "sat m (ver d)" "le m (version i)"
    "\<forall>v \<in> set (versions i). sat v (ver d) \<and> le v (version i) \<longrightarrow> le v m"
    by blast+
  with Some range show ?thesis
    by (auto simp: select_version_def)
qed

lemma select_version_unsatisfiable_example:
  "select_version sample_env (Dep ''a'' ''>3.0.0'') (Info ''2.0.0'' [''1.0.0'', ''1.2.0'', ''2.0.0''])
     = ''2.0.0''"
  by (simp add: select_version_def sample_env_def semver_defs)

lemma select_version_plain_range_example:
  "select_version sample_env (Dep ''a'' ''>=1.0.0'') (Info ''1.2.0'' [''1.0.0'', ''1.2.0'', ''1.3.0''])
     = ''1.2.0''"
  by (simp add: select_version_def sample_env_def semver_defs)

text \<open>
  Claim C3.  The claim: for \<^verbatim>\<open>*\<close> and \<^verbatim>\<open>latest\<close> the resolved version is the latest one;
  for any other range it is the greatest published version that satisfies the range and
  is at most the latest; when nothing qualifies it is the latest.  The first and the last
  part hold (\<open>select_version_wildcard\<close>, \<open>select_version_range\<close>, and the example of the
  specification in \<open>select_version_unsatisfiable_example\<close>).  The middle part holds
  where the appended bound acts as a conjunction (\<open>select_version_greatest\<close>) and fails
  for a range with alternatives: the program builds the range \<^verbatim>\<open>dep.ver + ' <=' + info.version\<close>,
  and in \<^verbatim>\<open>>=1.0.0 || <0.5.0 <=1.2.0\<close> the bound belongs to the last alternative only.
  With versions 1.0.0, 1.2.0 and 1.3.0 published and 1.2.0 the latest, the program
  resolves the range \<^verbatim>\<open>>=1.0.0 || <0.5.0\<close> to 1.3.0, which is newer than the latest;
  the greatest version that satisfies the range and is at most the latest is 1.2.0.
\<close>

theorem select_version_alternatives_exceed_latest:
  "select_version sample_env (Dep ''a'' ''>=1.0.0 || <0.5.0'')
     (Info ''1.2.0'' [''1.0.0'', ''1.2.0'', ''1.3.0'']) = ''1.3.0''"
  by (simp add: select_version_def sample_env_def semver_defs)

section \<open>The fast path\<close>

text \<open>
  Claim C4.  When the declared range of a dependency is a valid exact version and the
  cache directory \<open>cacheDir/name/version/arch/abi\<close> exists, the unit of the fetch pass
  finishes at once without error, records that directory in \<open>sourceModules\<close>, and leaves
  the list of calls as it was: it calls neither \<^verbatim>\<open>npm view\<close> nor \<^verbatim>\<open>npm install\<close>.
\<close>

theorem fast_path_makes_no_resolver_call:
  assumes "valid e (ver d)"
    and "cacheModuleDir e opts (name d) (ver d) \<in> files s"
  shows "fetch_iter e opts d s =
           (s\<lparr>sourceModules := sourceModules s @ [cacheModuleDir e opts (name d) (ver d)]\<rparr>,
            Done None)
         \<and> calls (fst (fetch_iter e opts d s)) = calls s"
  using assms by (simp add: fetch_iter_def)

theorem fast_path_makes_no_resolver_call_witness:
  "valid sample_env (ver (Dep ''left-pad'' ''1.0.0''))
   \<and> cacheModuleDir sample_env (sample_opts []) ''left-pad'' ''1.0.0''
       \<in> files (start_state {''/cache/left-pad/1.0.0/x64/46''})
   \<and> snd (fetch_iter sample_env (sample_opts []) (Dep ''left-pad'' ''1.0.0'')
            (start_state {''/cache/left-pad/1.0.0/x64/46''})) = Done None
   \<and> sourceModules (fst (fetch_iter sample_env (sample_opts []) (Dep ''left-pad'' ''1.0.0'')
            (start_state {''/cache/left-pad/1.0.0/x64/46''}))) = [''/cache/left-pad/1.0.0/x64/46'']
   \<and> calls (fst (fetch_iter sample_env (sample_opts []) (Dep ''left-pad'' ''1.0.0'')
            (start_state {''/cache/left-pad/1.0.0/x64/46''}))) = []"
proof -
  have v: "valid sample_env (ver (Dep ''left-pad'' ''1.0.0''))"
    by (simp add: sample_env_def semver_defs)
  have c: "cacheModuleDir sample_env (sample_opts []) (name (Dep ''left-pad'' ''1.0.0''))
             (ver (Dep ''left-pad'' ''1.0.0''))
           \<in> files (start_state {''/cache/left-pad/1.0.0/x64/46''})"
    by (simp add: cacheModuleDir_def sample_defs start_state_def)
  show ?thesis
    using fast_path_makes_no_resolver_call [OF v c] v c
    by (simp add: cacheModuleDir_def sample_defs start_state_def)
qed

section \<open>Move first, copy on failure\<close>

text \<open>
  Claim C5.  Publishing a fetched package into the cache: once the target directory has
  been made, the program calls \<^verbatim>\<open>fs.rename(src, cacheModuleDir)\<close> before anything else.
  If the rename succeeds the unit finishes and no copy is started.  If the rename fails,
  for whatever reason, and the source exists, the program starts
  \<^verbatim>\<open>rsync -aq src/ cacheModuleDir/.\<close> and touches nothing else; when that copy has
  succeeded the source still exists and no further call has been made, so the scratch
  directory is left for the cleanup pass.
\<close>

theorem move_first_copy_on_failure:
  assumes "src \<in> files s"
  shows "on_mkdirs cmd tmpDir None s =
           (called (Rename (path_join [tmpDir, ''node_modules'']) cmd) s,
            Wait (OnRename (path_join [tmpDir, ''node_modules'']) cmd))
         \<and> resume e opts (OnRename src cmd) Ok s =
             Some (s\<lparr>files := fs_rename src cmd (files s),
                      sourceModules := sourceModules s @ [cmd]\<rparr>, Done None)
         \<and> resume e opts (OnRename src cmd) (Fail x) s =
             Some (called (RsyncExec (src @ ''/'') (cmd @ ''/.'')) s, Wait (OnCopy src cmd))
         \<and> resume e opts (OnCopy src cmd) Ok s =
             Some (s\<lparr>files := fs_rsync src cmd (files s),
                      sourceModules := sourceModules s @ [cmd]\<rparr>, Done None)
         \<and> src \<in> fs_rsync src cmd (files s)"
  using assms
  by (simp add: on_mkdirs_def on_rename_def on_copy_def copyDir_def fs_rsync_def Let_def)

theorem move_first_copy_on_failure_witness:
  "''/tmp/t0/node_modules'' \<in> files (start_state {''/tmp/t0/node_modules'', ''/cache/a''})
   \<and> resume sample_env (sample_opts []) (OnRename ''/tmp/t0/node_modules'' ''/cache/a'')
        (Fail ''EXDEV'') (start_state {''/tmp/t0/node_modules'', ''/cache/a''})
       = Some (called (RsyncExec ''/tmp/t0/node_modules/'' ''/cache/a/.'')
                 (start_state {''/tmp/t0/node_modules'', ''/cache/a''}),
               Wait (OnCopy ''/tmp/t0/node_modules'' ''/cache/a''))
   \<and> ''/tmp/t0/node_modules''
       \<in> fs_rsync ''/tmp/t0/node_modules'' ''/cache/a''
           (files (start_state {''/tmp/t0/node_modules'', ''/cache/a''}))"
proof -
  have h: "''/tmp/t0/node_modules'' \<in> files (start_state {''/tmp/t0/node_modules'', ''/cache/a''})"
    by (simp add: start_state_def)
  show ?thesis
    using move_first_copy_on_failure
            [OF h, where cmd = "''/cache/a''" and e = sample_env and opts = "sample_opts []"
               and x = "''EXDEV''"] h
    by simp
qed

section \<open>A run without dependencies\<close>

text \<open>
  Claim C10, as stated: every call with an empty set of declared dependencies fulfils at
  once with an empty \<open>modules\<close> mapping.  It fails when the working directory does not
  exist: the directory check comes first, and with \<^verbatim>\<open>dependencies: {}\<close> and a missing
  \<^verbatim>\<open>/proj\<close> the promise is rejected with "Invalid directory".
\<close>

theorem install_empty_deps_invalid_directory:
  "dependencies (sample_opts []) = Some []
   \<and> promise (install sample_env (sample_opts []) {}) = Rejected ''Invalid directory: /proj''"
  by (simp add: install_defs sample_defs reject_def)

text \<open>
  Claim C10, amended.  When the working directory exists and the dependency list the
  program collects (from \<^verbatim>\<open>opts.dependencies\<close>, or from a \<^verbatim>\<open>package.json\<close> that is there)
  is empty, \<^verbatim>\<open>install\<close> fulfils at once with \<open>modules\<close> empty; the file system is untouched
  and no call has been made: no cache directory, no backup or creation of
  \<^verbatim>\<open>node_modules\<close>, no \<^verbatim>\<open>npm.load\<close>, \<^verbatim>\<open>npm view\<close> or \<^verbatim>\<open>npm install\<close>.
\<close>

theorem install_without_deps_fulfills_at_once:
  assumes "dir opts \<in> fs0" and "collect_deps e opts fs0 = Inr []"
  shows "install e opts fs0 =
           (start_state fs0)\<lparr>promise := Fulfilled (Results (node e) (arch e) (modulesAPI e) [])\<rparr>
         \<and> files (install e opts fs0) = fs0 \<and> calls (install e opts fs0) = []"
  using assms by (simp add: install_def fulfill_def start_state_def)

theorem install_without_deps_fulfills_at_once_witness:
  "dir (sample_opts []) \<in> {''/proj''}
   \<and> collect_deps sample_env (sample_opts []) {''/proj''} = Inr []
   \<and> promise (install sample_env (sample_opts []) {''/proj''})
       = Fulfilled (Results ''v4.2.1'' ''x64'' ''46'' [])
   \<and> calls (install sample_env (sample_opts []) {''/proj''}) = []"
proof -
  have d: "dir (sample_opts []) \<in> {''/proj''}"
    by (simp add: sample_defs)
  have c: "collect_deps sample_env (sample_opts []) {''/proj''} = Inr []"
    by (simp add: collect_deps_def declared_def sample_defs)
  show ?thesis
    using install_without_deps_fulfills_at_once [OF d c] d c
    by (simp add: sample_defs start_state_def)
qed

section \<open>The backup of node_modules\<close>

lemma relocate_not_source:
  assumes "length src < length dst"
  shows "relocate src dst p \<noteq> src"
proof (cases "within src p")
  case True
  have "length (dst @ drop (length src) p) \<noteq> length src"
    using assms by simp
  then have "dst @ drop (length src) p \<noteq> src"
    by (metis (full_types))
  with True show ?thesis
    by (simp add: relocate_def)
next
  case False
  then show ?thesis
    by (auto simp: relocate_def within_def)
qed

lemma fs_rename_removes_source:
  assumes "length src < length dst"
  shows "src \<notin> fs_rename src dst F"
proof
  assume "src \<in> fs_rename src dst F"
  then obtain p where "relocate src dst p = src"
    unfolding fs_rename_def by (metis imageE)
  with relocate_not_source [OF assms] show False
    by blast
qed

lemma fs_rename_keeps_contents:
  "p \<in> F \<Longrightarrow> within src p \<Longrightarrow> dst @ drop (length src) p \<in> fs_rename src dst F"
  by (force simp: fs_rename_def relocate_def)

text \<open>
  Claim C7, as stated: in every run with an existing \<^verbatim>\<open>node_modules\<close> and without
  \<^verbatim>\<open>keep\<close>, the directory is renamed aside.  It fails for a run without dependencies,
  which returns before the backup: with \<^verbatim>\<open>dependencies: {}\<close> the existing
  \<^verbatim>\<open>/proj/node_modules\<close> stays where it is and no call is made.
\<close>

theorem backup_skipped_without_deps:
  "destNodeModulesDir (sample_opts []) \<in> {''/proj'', ''/proj/node_modules''}
   \<and> \<not> keep (sample_opts [])
   \<and> files (install sample_env (sample_opts []) {''/proj'', ''/proj/node_modules''})
       = {''/proj'', ''/proj/node_modules''}
   \<and> calls (install sample_env (sample_opts []) {''/proj'', ''/proj/node_modules''}) = []"
  by (simp add: install_defs sample_defs fulfill_def destNodeModulesDir_def)

text \<open>
  Claim C7, amended.  In a run that gets past the directory and manifest checks with at
  least one dependency, without \<^verbatim>\<open>keep\<close> and with \<^verbatim>\<open>node_modules\<close> existing, the calls
  made up to \<^verbatim>\<open>npm.load\<close> are: the creation of the cache directory if it was missing, the
  rename of \<^verbatim>\<open>node_modules\<close> to \<^verbatim>\<open>node_modules.<time>.bak\<close>, the creation of a new
  \<^verbatim>\<open>node_modules\<close>, and \<^verbatim>\<open>npm.load\<close>; nothing is removed.  Every path that existed in
  or below \<^verbatim>\<open>node_modules\<close> exists afterwards at the same place below the backup name.
\<close>

theorem destination_renamed_aside:
  assumes "dir opts \<in> fs0" and "collect_deps e opts fs0 = Inr ds" and "ds \<noteq> []"
    and "\<not> keep opts" and "destNodeModulesDir opts \<in> fs0"
  shows "calls (install e opts fs0) =
           (if cacheDir opts \<in> fs0 then [] else [MkdirsSync (cacheDir opts)])
           @ [RenameSync (destNodeModulesDir opts)
                (destNodeModulesDir opts @ ''.'' @ show_nat (getTime e) @ ''.bak''),
              MkdirsSync (destNodeModulesDir opts), NpmLoad]
         \<and> (\<forall>p \<in> fs0. within (destNodeModulesDir opts) p \<longrightarrow>
               (destNodeModulesDir opts @ ''.'' @ show_nat (getTime e) @ ''.bak'')
                 @ drop (length (destNodeModulesDir opts)) p \<in> files (install e opts fs0))"
proof -
  let ?dst = "destNodeModulesDir opts"
  let ?bak = "backup_name e opts"
  have len: "length ?dst < length ?bak"
    by (simp add: backup_name_def)
  have gone: "\<And>F. ?dst \<notin> fs_rename ?dst ?bak F"
    using fs_rename_removes_source [OF len] by simp
  have kept: "\<And>F p. p \<in> F \<Longrightarrow> within ?dst p \<Longrightarrow> ?bak @ drop (length ?dst) p \<in> fs_rename ?dst ?bak F"
    by (rule fs_rename_keeps_contents)
  show ?thesis
    using assms gone kept
    by (auto simp: install_def start_state_def mkdirsSync_def renameSync_def called_def
        fs_mkdirs_def Let_def backup_name_def)
qed

theorem destination_renamed_aside_witness:
  "dir (sample_opts [(''a'', ''1.0.0'')]) \<in> {''/proj'', ''/proj/node_modules'', ''/proj/node_modules/old''}
   \<and> collect_deps sample_env (sample_opts [(''a'', ''1.0.0'')])
         {''/proj'', ''/proj/node_modules'', ''/proj/node_modules/old''} = Inr [Dep ''a'' ''1.0.0'']
   \<and> \<not> keep (sample_opts [(''a'', ''1.0.0'')])
   \<and> destNodeModulesDir (sample_opts [(''a'', ''1.0.0'')])
         \<in> {''/proj'', ''/proj/node_modules'', ''/proj/node_modules/old''}
   \<and> calls (install sample_env (sample_opts [(''a'', ''1.0.0'')])
         {''/proj'', ''/proj/node_modules'', ''/proj/node_modules/old''})
       = [MkdirsSync ''/cache'',
          RenameSync ''/proj/node_modules'' ''/proj/node_modules.1446336000000.bak'',
          MkdirsSync ''/proj/node_modules'', NpmLoad]
   \<and> ''/proj/node_modules.1446336000000.bak/old''
       \<in> files (install sample_env (sample_opts [(''a'', ''1.0.0'')])
            {''/proj'', ''/proj/node_modules'', ''/proj/node_modules/old''})"
proof -
  let ?fs = "{''/proj'', ''/proj/node_modules'', ''/proj/node_modules/old''}"
  let ?opts = "sample_opts [(''a'', ''1.0.0'')]"
  have d: "dir ?opts \<in> ?fs"
    by (simp add: sample_defs)
  have c: "collect_deps sample_env ?opts ?fs = Inr [Dep ''a'' ''1.0.0'']"
    by (simp add: collect_deps_def declared_def sample_defs)
  have n: "[Dep ''a'' ''1.0.0''] \<noteq> []"
    by simp
  have k: "\<not> keep ?opts"
    by (simp add: sample_defs)
  have m: "destNodeModulesDir ?opts \<in> ?fs"
    by (simp add: destNodeModulesDir_def sample_defs)
  show ?thesis
    using destination_renamed_aside [OF d c n k m] d c k m
    by (simp add: destNodeModulesDir_def sample_defs show_nat.simps digit_char_def within_def)
qed

section \<open>What a unit leaves alone\<close>

lemma iterator_frame:
  assumes "iterator e opts w s = (s', out)"
  shows "promise s' = promise s \<and> failures s' = failures s \<and> errored s' = errored s
         \<and> inflight s' = inflight s \<and> stage s' = stage s \<and> queue s' = queue s
         \<and> started s' = started s \<and> modules s' = modules s \<and> deps s' = deps s"
  using assms
  by (cases w) (auto simp: iterator_def fetch_iter_def publish_iter_def cleanup_iter_def
      called_def split: if_splits copy_outcome.splits)

lemma resume_frame:
  assumes "resume e opts c r s = Some (s', out)"
  shows "promise s' = promise s \<and> failures s' = failures s \<and> errored s' = errored s
         \<and> inflight s' = inflight s \<and> stage s' = stage s \<and> queue s' = queue s
         \<and> started s' = started s \<and> deps s' = deps s"
  using assms
  by (cases c; cases r)
     (auto simp: on_view_def on_install_def on_mkdirs_def on_rename_def on_copy_def
        called_def Let_def split: if_splits copy_outcome.splits)

lemma resume_modules:
  assumes "resume e opts c r s = Some (s', out)" and "modules s' \<noteq> modules s"
  shows "\<exists>d i. c = OnView d \<and> r = Found i"
  using assms
  by (cases c; cases r)
     (auto simp: on_view_def on_install_def on_mkdirs_def on_rename_def on_copy_def
        called_def Let_def split: if_splits copy_outcome.splits)

section \<open>Runs that never settle\<close>

lemma resume_Stuck: "resume e opts Stuck r s = None"
  by (cases r) simp_all

lemma quiescent_step:
  assumes "quiescent s"
  shows "quiescent (step e opts ev s) \<and> promise (step e opts ev s) = promise s"
proof (cases ev)
  case (LoadCb r)
  with assms show ?thesis
    by (simp add: step_def quiescent_def)
next
  case (Callback k r)
  show ?thesis
  proof (cases "map_of (inflight s) k")
    case None
    with Callback assms show ?thesis
      by (simp add: step_def)
  next
    case (Some c)
    then have "(k, c) \<in> set (inflight s)"
      by (rule map_of_SomeD)
    with assms have "c = Stuck"
      by (auto simp: quiescent_def list_all_iff)
    with Some Callback assms show ?thesis
      by (simp add: step_def resume_Stuck)
  qed
next
  case (Appear p)
  with assms show ?thesis
    by (simp add: step_def quiescent_def)
next
  case (Vanish p)
  with assms show ?thesis
    by (simp add: step_def quiescent_def)
qed

lemma quiescent_run:
  "quiescent s \<Longrightarrow> promise (run e opts evs s) = promise s"
proof (induction evs arbitrary: s)
  case Nil
  then show ?case by simp
next
  case (Cons ev evs)
  from quiescent_step [OF Cons.prems, of e opts ev]
  have "quiescent (step e opts ev s)" and "promise (step e opts ev s) = promise s"
    by simp_all
  with Cons.IH [of "step e opts ev s"] show ?case
    by simp
qed

lemma run_append: "run e opts (xs @ ys) s = run e opts ys (run e opts xs s)"
  by (induction xs arbitrary: s) simp_all

lemma stuck_run_state:
  "promise stuck_run = Pending \<and> inflight stuck_run = [(1, Stuck)]
   \<and> stage stuck_run = Publishing \<and> queue stuck_run = []"
  by (simp add: stuck_run_def run_defs)

text \<open>
  A \<^verbatim>\<open>copyDir\<close> that does not call back leaves its unit running for ever: in \<open>stuck_run\<close>
  the publish pass never ends and the promise stays pending whatever happens next.
\<close>

lemma stuck_run_never_settles: "promise (run e opts evs stuck_run) = Pending"
proof -
  have "quiescent stuck_run"
    using stuck_run_state by (simp add: quiescent_def)
  then show ?thesis
    using stuck_run_state by (simp add: quiescent_run)
qed

lemma install_loading:
  "stage (install e opts fs0) = Loading \<Longrightarrow> loading (install e opts fs0)"
  by (auto simp: loading_def install_def start_state_def reject_def fulfill_def mkdirsSync_def
      renameSync_def called_def Let_def split: if_splits sum.splits)

lemma loading_step:
  assumes "loading s" and "\<forall>r. ev \<noteq> LoadCb r"
  shows "loading (step e opts ev s)"
  using assms by (cases ev) (auto simp: loading_def step_def)

lemma loading_run:
  "loading s \<Longrightarrow> \<forall>ev \<in> set evs. \<forall>r. ev \<noteq> LoadCb r \<Longrightarrow> loading (run e opts evs s)"
  by (induction evs arbitrary: s) (simp_all add: loading_step)

lemma load_error_quiescent:
  "loading s \<Longrightarrow> quiescent (step e opts (LoadCb (Some x)) s)
     \<and> promise (step e opts (LoadCb (Some x)) s) = Pending"
  by (simp add: loading_def step_def on_load_def quiescent_def)

text \<open>
  Claim C8.  If \<^verbatim>\<open>npm.load\<close> calls back with an error, the promise is still pending
  after any further sequence of events: it is neither fulfilled nor rejected.  Before
  \<^verbatim>\<open>npm.load\<close> calls back, the surroundings may create and delete paths.
\<close>

theorem load_error_never_settles:
  assumes "stage (install e opts fs0) = Loading"
    and "\<forall>ev \<in> set pre. \<forall>r. ev \<noteq> LoadCb r"
  shows "promise (run e opts (pre @ LoadCb (Some x) # evs) (install e opts fs0)) = Pending"
proof -
  have "loading (run e opts pre (install e opts fs0))"
    using assms by (simp add: install_loading loading_run)
  from load_error_quiescent [OF this, of e opts x]
  show ?thesis
    by (simp add: run_append quiescent_run)
qed

theorem load_error_never_settles_witness:
  "stage (install sample_env (sample_opts [(''a'', ''1.0.0'')]) {''/proj''}) = Loading
   \<and> promise (run sample_env (sample_opts [(''a'', ''1.0.0'')])
        ([Appear ''/x''] @ LoadCb (Some ''ENOTFOUND'') # [LoadCb None, Callback 0 Ok])
        (install sample_env (sample_opts [(''a'', ''1.0.0'')]) {''/proj''})) = Pending"
proof -
  have l: "stage (install sample_env (sample_opts [(''a'', ''1.0.0'')]) {''/proj''}) = Loading"
    by (simp add: install_defs sample_defs called_def destNodeModulesDir_def fs_defs Let_def)
  have p: "\<forall>ev \<in> set [Appear ''/x'']. \<forall>r. ev \<noteq> LoadCb r"
    by simp
  show ?thesis
    using load_error_never_settles [OF l p] l p by blast
qed

section \<open>Fail fast\<close>

lemma ready_fail_fast: "ready s \<Longrightarrow> fail_fast s"
  by (simp add: ready_def fail_fast_def)

lemma replenish_errored:
  "errored s \<Longrightarrow> replenish iter cb lim ws s = s\<lparr>queue := ws\<rparr>"
  by (cases ws) simp_all

lemma replenish_fail_fast:
  assumes cb_none: "\<And>s. ready s \<Longrightarrow> inflight s = [] \<Longrightarrow> fail_fast (cb None s)"
    and cb_some: "\<And>x s. cb (Some x) s = reject x s"
  shows "ready s \<Longrightarrow> fail_fast (replenish (iterator e opts) cb lim ws s)"
proof (induction ws arbitrary: s)
  case Nil
  show ?case
  proof (cases "inflight s = []")
    case True
    have "ready (s\<lparr>queue := []\<rparr>)" and "inflight (s\<lparr>queue := []\<rparr>) = []"
      using Nil True by (simp_all add: ready_def)
    then have "fail_fast (cb None (s\<lparr>queue := []\<rparr>))"
      by (rule cb_none)
    with Nil True show ?thesis
      by (simp add: ready_def)
  next
    case False
    with Nil show ?thesis
      by (simp add: ready_def fail_fast_def)
  qed
next
  case (Cons w ws)
  show ?case
  proof (cases "lim \<le> length (inflight s)")
    case True
    with Cons.prems show ?thesis
      by (simp add: ready_def fail_fast_def)
  next
    case False
    obtain s' out where it: "iterator e opts w s = (s', out)"
      by (cases "iterator e opts w s")
    note fr = iterator_frame [OF it]
    have r': "ready s'"
      using Cons.prems fr by (simp add: ready_def)
    have ne: "\<not> errored s"
      using Cons.prems by (simp add: ready_def)
    show ?thesis
    proof (cases out)
      case (Done r)
      show ?thesis
      proof (cases r)
        case None
        with Done it False ne Cons.IH [OF r'] show ?thesis
          by simp
      next
        case (Some x)
        have "fail_fast (reject x (s'\<lparr>queue := ws, errored := True, failures := failures s' @ [x]\<rparr>))"
          using r' by (simp add: ready_def fail_fast_def reject_def)
        with Some Done it False ne show ?thesis
          by (simp add: cb_some)
      qed
    next
      case (Wait c)
      have "ready (launch c s')"
        using r' by (simp add: ready_def launch_def)
      from Cons.IH [OF this] Wait it False ne show ?thesis
        by simp
    next
      case Never
      have "ready (launch Stuck s')"
        using r' by (simp add: ready_def launch_def)
      from Cons.IH [OF this] Never it False ne show ?thesis
        by simp
    qed
  qed
qed

lemma cleanup_done_fail_fast:
  "ready s \<Longrightarrow> inflight s = [] \<Longrightarrow> fail_fast (cleanup_done e None s)"
  by (auto simp: cleanup_done_def fulfill_def ready_def fail_fast_def active_def)

lemma publish_done_fail_fast:
  assumes "ready s" and "inflight s = []"
  shows "fail_fast (publish_done e opts None s)"
proof (cases "cleanUpDirs s = []")
  case True
  with assms show ?thesis
    by (auto simp: publish_done_def fulfill_def ready_def fail_fast_def active_def)
next
  case False
  have "fail_fast (replenish (iterator e opts) (cleanup_done e) (limit opts)
          (map CleanDir (cleanUpDirs s)) (s\<lparr>stage := Cleaning\<rparr>))"
  proof (rule replenish_fail_fast)
    show "\<And>t. ready t \<Longrightarrow> inflight t = [] \<Longrightarrow> fail_fast (cleanup_done e None t)"
      by (rule cleanup_done_fail_fast)
    show "\<And>x t. cleanup_done e (Some x) t = reject x t"
      by (simp add: cleanup_done_def)
    show "ready (s\<lparr>stage := Cleaning\<rparr>)"
      using assms by (simp add: ready_def active_def)
  qed
  with False show ?thesis
    by (simp add: publish_done_def eachLimit_def)
qed

lemma fetch_done_fail_fast:
  assumes "ready s" and "inflight s = []"
  shows "fail_fast (fetch_done e opts None s)"
proof -
  have "fail_fast (replenish (iterator e opts) (publish_done e opts) (limit opts)
          (map PublishSrc (sourceModules s)) (s\<lparr>stage := Publishing\<rparr>))"
  proof (rule replenish_fail_fast)
    show "\<And>t. ready t \<Longrightarrow> inflight t = [] \<Longrightarrow> fail_fast (publish_done e opts None t)"
      by (rule publish_done_fail_fast)
    show "\<And>x t. publish_done e opts (Some x) t = reject x t"
      by (simp add: publish_done_def)
    show "ready (s\<lparr>stage := Publishing\<rparr>)"
      using assms by (simp add: ready_def active_def)
  qed
  then show ?thesis
    by (simp add: fetch_done_def eachLimit_def)
qed

lemma final_cb_none:
  "active st \<Longrightarrow> ready s \<Longrightarrow> inflight s = [] \<Longrightarrow> fail_fast (final_cb e opts st None s)"
  by (auto simp: active_def final_cb_def fetch_done_fail_fast publish_done_fail_fast
      cleanup_done_fail_fast)

lemma final_cb_some:
  "active st \<Longrightarrow> final_cb e opts st (Some x) s = reject x s"
  by (auto simp: active_def final_cb_def fetch_done_def publish_done_def cleanup_done_def)

lemma install_fail_fast: "fail_fast (install e opts fs0)"
  by (auto simp: fail_fast_def active_def install_def start_state_def reject_def fulfill_def
      mkdirsSync_def renameSync_def called_def Let_def split: sum.splits)

lemma fail_fast_frame:
  assumes "fail_fast s"
    and "promise s' = promise s \<and> failures s' = failures s \<and> errored s' = errored s
         \<and> inflight s' = inflight s \<and> stage s' = stage s \<and> queue s' = queue s
         \<and> started s' = started s \<and> deps s' = deps s"
  shows "fail_fast s'"
  using assms by (simp add: fail_fast_def)

lemma settle_fail_fast:
  assumes inv: "fail_fast s" and ne: "inflight s \<noteq> []"
  shows "fail_fast (settle e opts k (s, out))"
proof -
  have act: "active (stage s)"
    using inv ne by (auto simp: fail_fast_def)
  have pend: "failures s = [] \<Longrightarrow> promise s = Pending \<and> \<not> errored s"
    using inv ne by (auto simp: fail_fast_def)
  have err: "failures s \<noteq> [] \<Longrightarrow> errored s \<and> promise s = Rejected (hd (failures s))"
    using inv by (simp add: fail_fast_def)
  show ?thesis
  proof (cases out)
    case (Wait c)
    have "AList.update k c (inflight s) \<noteq> []"
      by (cases "inflight s") (auto split: if_splits)
    with Wait inv ne show ?thesis
      by (auto simp: settle_def fail_fast_def)
  next
    case Never
    have "AList.update k Stuck (inflight s) \<noteq> []"
      by (cases "inflight s") (auto split: if_splits)
    with Never inv ne show ?thesis
      by (auto simp: settle_def fail_fast_def)
  next
    case (Done r)
    let ?s' = "s\<lparr>inflight := AList.delete k (inflight s)\<rparr>"
    show ?thesis
    proof (cases r)
      case None
      show ?thesis
      proof (cases "failures s = []")
        case True
        have rd: "ready ?s'"
          using pend [OF True] True act by (simp add: ready_def)
        have "fail_fast (replenish (iterator e opts) (final_cb e opts (stage s)) (limit opts)
                (queue s) ?s')"
        proof (rule replenish_fail_fast)
          show "\<And>t. ready t \<Longrightarrow> inflight t = [] \<Longrightarrow> fail_fast (final_cb e opts (stage s) None t)"
            using act by (rule final_cb_none)
          show "\<And>x t. final_cb e opts (stage s) (Some x) t = reject x t"
            using act by (rule final_cb_some)
          show "ready ?s'"
            by (rule rd)
        qed
        with None Done show ?thesis
          by (simp add: settle_def Let_def)
      next
        case False
        have "errored ?s'"
          using err [OF False] by simp
        then have "replenish (iterator e opts) (final_cb e opts (stage s)) (limit opts)
                     (queue s) ?s' = ?s'\<lparr>queue := queue s\<rparr>"
          by (rule replenish_errored)
        moreover have "fail_fast (?s'\<lparr>queue := queue s\<rparr>)"
          using err [OF False] False act by (simp add: fail_fast_def)
        ultimately show ?thesis
          using None Done by (simp add: settle_def Let_def)
      qed
    next
      case (Some x)
      show ?thesis
      proof (cases "failures s = []")
        case True
        with pend Some Done act show ?thesis
          by (simp add: settle_def Let_def final_cb_some reject_def fail_fast_def)
      next
        case False
        with err Some Done act show ?thesis
          by (simp add: settle_def Let_def fail_fast_def)
      qed
    qed
  qed
qed

lemma step_fail_fast:
  assumes "fail_fast s"
  shows "fail_fast (step e opts ev s)"
proof (cases ev)
  case (LoadCb r)
  show ?thesis
  proof (cases "stage s = Loading")
    case False
    with LoadCb assms show ?thesis
      by (simp add: step_def)
  next
    case True
    then have na: "\<not> active (stage s)"
      by (simp add: active_def)
    with assms True have st: "inflight s = []" "failures s = []" "\<not> errored s" "promise s = Pending"
      by (auto simp: fail_fast_def)
    show ?thesis
    proof (cases r)
      case (Some x)
      with LoadCb True st show ?thesis
        by (simp add: step_def on_load_def fail_fast_def active_def)
    next
      case None
      have "fail_fast (replenish (iterator e opts) (fetch_done e opts) (limit opts)
              (map FetchDep (deps s)) (s\<lparr>stage := Fetching\<rparr>))"
      proof (rule replenish_fail_fast)
        show "\<And>t. ready t \<Longrightarrow> inflight t = [] \<Longrightarrow> fail_fast (fetch_done e opts None t)"
          by (rule fetch_done_fail_fast)
        show "\<And>x t. fetch_done e opts (Some x) t = reject x t"
          by (simp add: fetch_done_def)
        show "ready (s\<lparr>stage := Fetching\<rparr>)"
          using st by (simp add: ready_def active_def)
      qed
      with None LoadCb True show ?thesis
        by (simp add: step_def on_load_def eachLimit_def)
    qed
  qed
next
  case (Callback k r)
  show ?thesis
  proof (cases "map_of (inflight s) k")
    case None
    with Callback assms show ?thesis
      by (simp add: step_def)
  next
    case (Some c)
    then have ne: "inflight s \<noteq> []"
      by auto
    show ?thesis
    proof (cases "resume e opts c r s")
      case None
      with Some Callback assms show ?thesis
        by (simp add: step_def)
    next
      case res: (Some so)
      obtain s1 out where so: "so = (s1, out)"
        by (cases so)
      note fr = resume_frame [OF res [unfolded so]]
      have "fail_fast s1"
        using assms fr by (rule fail_fast_frame)
      moreover have "inflight s1 \<noteq> []"
        using ne fr by simp
      ultimately have "fail_fast (settle e opts k (s1, out))"
        by (rule settle_fail_fast)
      with res so Some Callback show ?thesis
        by (simp add: step_def)
    qed
  qed
next
  case (Appear p)
  with assms show ?thesis
    by (simp add: step_def fail_fast_def)
next
  case (Vanish p)
  with assms show ?thesis
    by (simp add: step_def fail_fast_def)
qed

lemma run_fail_fast: "fail_fast s \<Longrightarrow> fail_fast (run e opts evs s)"
  by (induction evs arbitrary: s) (simp_all add: step_fail_fast)

lemma errored_step_stops:
  assumes inv: "fail_fast s" and er: "errored s"
  shows "queue (step e opts ev s) = queue s \<and> stage (step e opts ev s) = stage s"
proof (cases ev)
  case (LoadCb r)
  have "stage s \<noteq> Loading"
    using inv er by (auto simp: fail_fast_def active_def)
  with LoadCb show ?thesis
    by (simp add: step_def)
next
  case (Callback k r)
  show ?thesis
  proof (cases "map_of (inflight s) k")
    case None
    with Callback show ?thesis
      by (simp add: step_def)
  next
    case (Some c)
    show ?thesis
    proof (cases "resume e opts c r s")
      case None
      with Some Callback show ?thesis
        by (simp add: step_def)
    next
      case res: (Some so)
      obtain s1 out where so: "so = (s1, out)"
        by (cases so)
      note fr = resume_frame [OF res [unfolded so]]
      have e1: "errored s1"
        using er fr by simp
      have "queue (settle e opts k (s1, out)) = queue s1
            \<and> stage (settle e opts k (s1, out)) = stage s1"
      proof (cases out)
        case (Done r')
        with e1 show ?thesis
          by (cases r') (simp_all add: settle_def Let_def replenish_errored)
      next
        case (Wait c')
        then show ?thesis
          by (simp add: settle_def)
      next
        case Never
        then show ?thesis
          by (simp add: settle_def)
      qed
      with res so Some Callback fr show ?thesis
        by (simp add: step_def)
    qed
  qed
next
  case (Appear p)
  then show ?thesis
    by (simp add: step_def)
next
  case (Vanish p)
  then show ?thesis
    by (simp add: step_def)
qed

text \<open>
  Claim C6.  In every run, whatever the order in which callbacks fire: as soon as some
  unit of the fetch, publish or cleanup pass has reported an error, the promise is
  rejected with the first error reported, as the unit passed it; it is therefore not
  fulfilled with any result.  From then on the pass is over: no event takes another
  item from its queue or starts a later pass.
\<close>

theorem first_error_rejects:
  assumes "failures (run e opts evs (install e opts fs0)) \<noteq> []"
  shows "promise (run e opts evs (install e opts fs0))
           = Rejected (hd (failures (run e opts evs (install e opts fs0))))
         \<and> (\<forall>ev. queue (step e opts ev (run e opts evs (install e opts fs0)))
                    = queue (run e opts evs (install e opts fs0))
                  \<and> stage (step e opts ev (run e opts evs (install e opts fs0)))
                    = stage (run e opts evs (install e opts fs0)))"
proof -
  let ?s = "run e opts evs (install e opts fs0)"
  have inv: "fail_fast ?s"
    by (simp add: install_fail_fast run_fail_fast)
  with assms have "errored ?s" and "promise ?s = Rejected (hd (failures ?s))"
    by (simp_all add: fail_fast_def)
  with errored_step_stops [OF inv] show ?thesis
    by simp
qed

theorem first_error_rejects_witness:
  "failures failing_run \<noteq> [] \<and> promise failing_run = Rejected ''E404''"
proof -
  have f: "failures failing_run = [''E404'']"
    by (simp add: failing_run_def run_defs)
  then have "failures (run sample_env (sample_opts [(''a'', ''>=1.0.0''), (''b'', ''>=2.0.0'')])
       [LoadCb None, Callback 1 (Fail ''E404''),
        Callback 0 (Found (Info ''1.2.0'' [''1.0.0'', ''1.2.0'']))]
       (install sample_env (sample_opts [(''a'', ''>=1.0.0''), (''b'', ''>=2.0.0'')])
          {''/proj'', ''/cache''})) \<noteq> []"
    by (simp add: failing_run_def)
  from first_error_rejects [OF this, folded failing_run_def] f show ?thesis
    by simp
qed

section \<open>Who writes results.modules\<close>

lemma replenish_modules:
  assumes "\<And>r t. modules (cb r t) = modules t"
  shows "modules (replenish (iterator e opts) cb lim ws s) = modules s"
proof (induction ws arbitrary: s)
  case Nil
  show ?case
    by (simp add: assms)
next
  case (Cons w ws)
  obtain s' out where it: "iterator e opts w s = (s', out)"
    by (cases "iterator e opts w s")
  note fr = iterator_frame [OF it]
  show ?case
  proof (cases out)
    case (Done r)
    with it fr Cons.IH [of s'] show ?thesis
      by (cases r) (simp_all add: assms)
  next
    case (Wait c)
    with it fr Cons.IH [of "launch c s'"] show ?thesis
      by (simp add: launch_def)
  next
    case Never
    with it fr Cons.IH [of "launch Stuck s'"] show ?thesis
      by (simp add: launch_def)
  qed
qed

lemma cleanup_done_modules: "modules (cleanup_done e r s) = modules s"
  by (cases r) (simp_all add: cleanup_done_def reject_def fulfill_def)

lemma publish_done_modules: "modules (publish_done e opts r s) = modules s"
  by (cases r)
     (simp_all add: publish_done_def reject_def fulfill_def eachLimit_def replenish_modules
        cleanup_done_modules)

lemma fetch_done_modules: "modules (fetch_done e opts r s) = modules s"
  by (cases r)
     (simp_all add: fetch_done_def reject_def eachLimit_def replenish_modules
        publish_done_modules)

lemma final_cb_modules: "modules (final_cb e opts st r s) = modules s"
  by (cases st)
     (simp_all add: final_cb_def fetch_done_modules publish_done_modules cleanup_done_modules)

lemma settle_modules: "modules (settle e opts k (s, out)) = modules s"
proof (cases out)
  case (Done r)
  then show ?thesis
    by (cases r) (simp_all add: settle_def Let_def replenish_modules final_cb_modules)
next
  case (Wait c)
  then show ?thesis
    by (simp add: settle_def)
next
  case Never
  then show ?thesis
    by (simp add: settle_def)
qed

lemma step_modules:
  assumes "modules (step e opts ev s) \<noteq> modules s"
  shows "\<exists>k i d. ev = Callback k (Found i) \<and> map_of (inflight s) k = Some (OnView d)"
proof (cases ev)
  case (LoadCb r)
  with assms show ?thesis
    by (cases r)
       (auto simp: step_def on_load_def eachLimit_def replenish_modules fetch_done_modules
          split: if_splits)
next
  case (Callback k r)
  show ?thesis
  proof (cases "map_of (inflight s) k")
    case None
    with Callback assms show ?thesis
      by (simp add: step_def)
  next
    case (Some c)
    show ?thesis
    proof (cases "resume e opts c r s")
      case None
      with Some Callback assms show ?thesis
        by (simp add: step_def)
    next
      case res: (Some so)
      obtain s1 out where so: "so = (s1, out)"
        by (cases so)
      have "modules s1 \<noteq> modules s"
        using assms Callback Some res so by (simp add: step_def settle_modules)
      from resume_modules [OF res [unfolded so] this] Callback Some show ?thesis
        by auto
    qed
  qed
next
  case (Appear p)
  with assms show ?thesis
    by (simp add: step_def)
next
  case (Vanish p)
  with assms show ?thesis
    by (simp add: step_def)
qed

lemma warm_run_state:
  "promise warm_run = Fulfilled (Results ''v4.2.1'' ''x64'' ''46'' [])
   \<and> ''/proj/node_modules/a'' \<in> files warm_run
   \<and> calls warm_run = [MkdirsSync ''/proj/node_modules'', NpmLoad,
        RsyncExec ''/cache/a/1.0.0/x64/46/'' ''/proj/node_modules/.'']"
  by (simp add: warm_run_def run_defs)

text \<open>
  Claim C9.  A unit that takes the fast path (exact version, cache directory present)
  finishes without touching \<open>modules\<close>.  In a run, the only event that changes \<open>modules\<close>
  is the callback of \<^verbatim>\<open>npm view\<close> delivering a record.  So a run whose dependencies
  are all in the cache can end with an empty mapping: \<open>warm_run\<close> is fulfilled with
  \<open>modules\<close> empty while the package has been copied to \<^verbatim>\<open>/proj/node_modules/a\<close>.
\<close>

theorem fast_path_writes_no_module_entry:
  "(valid e (ver d) \<and> cacheModuleDir e opts (name d) (ver d) \<in> files s
      \<longrightarrow> snd (fetch_iter e opts d s) = Done None
          \<and> modules (fst (fetch_iter e opts d s)) = modules s)
   \<and> (modules (step e opts ev s) \<noteq> modules s
      \<longrightarrow> (\<exists>k i d'. ev = Callback k (Found i) \<and> map_of (inflight s) k = Some (OnView d')))
   \<and> promise warm_run = Fulfilled (Results ''v4.2.1'' ''x64'' ''46'' [])
   \<and> ''/proj/node_modules/a'' \<in> files warm_run"
  using step_modules [of e opts ev s] warm_run_state
  by (simp add: fetch_iter_def)

theorem fast_path_writes_no_module_entry_witness:
  "valid sample_env (ver (Dep ''a'' ''1.0.0''))
   \<and> cacheModuleDir sample_env (sample_opts []) (name (Dep ''a'' ''1.0.0'')) (ver (Dep ''a'' ''1.0.0''))
       \<in> files (start_state {''/cache/a/1.0.0/x64/46''})
   \<and> snd (fetch_iter sample_env (sample_opts []) (Dep ''a'' ''1.0.0'')
            (start_state {''/cache/a/1.0.0/x64/46''})) = Done None
   \<and> modules (fst (fetch_iter sample_env (sample_opts []) (Dep ''a'' ''1.0.0'')
            (start_state {''/cache/a/1.0.0/x64/46''}))) = []"
proof -
  have v: "valid sample_env (ver (Dep ''a'' ''1.0.0''))"
    by (simp add: sample_env_def semver_defs)
  have c: "cacheModuleDir sample_env (sample_opts []) (name (Dep ''a'' ''1.0.0''))
             (ver (Dep ''a'' ''1.0.0''))
           \<in> files (start_state {''/cache/a/1.0.0/x64/46''})"
    by (simp add: cacheModuleDir_def sample_defs start_state_def)
  have m: "modules (start_state {''/cache/a/1.0.0/x64/46''}) = []"
    by (simp add: start_state_def)
  from fast_path_writes_no_module_entry
         [of sample_env "Dep ''a'' ''1.0.0''" "sample_opts []"
             "start_state {''/cache/a/1.0.0/x64/46''}"] v c m
  show ?thesis
    by simp
qed

section \<open>What the fetch pass hands to the publish pass\<close>





end
